theory Spec2Isabelle
  imports Main
begin

section \<open>The signaling server: data model\<close>

text \<open>
  The enhanced signaling server (header comment \<^verbatim>\<open>server/src/index.js\<close>) keeps three
  module-level variables: \<^verbatim>\<open>waitingQueue\<close> (an array of user objects),
  \<^verbatim>\<open>peers\<close> (a Map from socket id to socket id) and \<^verbatim>\<open>userInfo\<close> (a Map from socket
  id to user object). A user object is built once per connection and never mutated
  afterwards, so it is modelled by value.

  Socket ids are JavaScript strings. The handlers test ids for truthiness
  (\<^verbatim>\<open>if (peerSocketId)\<close>), which is false for \<^verbatim>\<open>undefined\<close> and for the empty string.
  Console output is left out; what is kept of logging is where a log call can throw.
\<close>

record user =
  socketId :: string
  joinedAt :: int
  userAgent :: "string option"

record server =
  waitingQueue :: "user list"
  peers :: "string \<rightharpoonup> string"
  userInfo :: "string \<rightharpoonup> user"

definition initial :: server where
  "initial = \<lparr>waitingQueue = [], peers = Map.empty, userInfo = Map.empty\<rparr>"

text \<open>
  A payload received with a \<^verbatim>\<open>signal\<close> message is what socket.io parsed from the
  client's frame: a JSON value, or \<^verbatim>\<open>undefined\<close> when the client sent no argument.
  Numbers are never computed with, so their representation is the type parameter. An
  object is the list of its properties in the order of the frame.
\<close>

datatype 'p json =
    JNull
  | JBool bool
  | JNumber 'p
  | JString string
  | JArray "'p json list"
  | JObject "(string \<times> 'p json) list"

datatype 'p js_value = JSUndefined | JSON "'p json"

datatype js_error = TypeError | RangeError

text \<open>Outbound messages; an emission names the socket id (room) it is sent to.\<close>

datatype 'p message =
    MatchFound string bool
  | WaitingForPeer
  | SignalMsg "'p js_value"
  | PeerDisconnected
  | ErrorMsg string

type_synonym 'p emission = "string \<times> 'p message"

definition truthy :: "string \<Rightarrow> bool" where
  "truthy s \<longleftrightarrow> s \<noteq> []"

text \<open>
  \<^verbatim>\<open>payload.type\<close>: reading a property of \<^verbatim>\<open>undefined\<close> or \<^verbatim>\<open>null\<close> throws a
  TypeError. An object yields its property \<^verbatim>\<open>type\<close> (the last one, if the frame repeated
  the key) or \<^verbatim>\<open>undefined\<close>; booleans, numbers, strings and arrays have no such
  property and yield \<^verbatim>\<open>undefined\<close>.
\<close>

definition get_type :: "'p js_value \<Rightarrow> js_error + 'p js_value" where
  "get_type payload =
     (case payload of
        JSUndefined \<Rightarrow> Inl TypeError
      | JSON JNull \<Rightarrow> Inl TypeError
      | JSON (JObject kvs) \<Rightarrow>
          (case map_of (rev kvs) ''type'' of None \<Rightarrow> Inr JSUndefined | Some v \<Rightarrow> Inr (JSON v))
      | JSON _ \<Rightarrow> Inr JSUndefined)"

text \<open>
  \<^verbatim>\<open>JSON.stringify\<close> descends into arrays and objects recursively and throws a
  RangeError when the call stack is exhausted. How many levels fit depends on the engine
  and on the moment of the call, so the number of levels that still fit, \<open>stack\<close>, is an
  argument. The string it returns is only printed.
\<close>

fun nesting :: "'p json \<Rightarrow> nat" where
  "nesting (JArray xs) = Suc (foldr max (map nesting xs) 0)"
| "nesting (JObject kvs) = Suc (foldr max (map (\<lambda>kv. nesting (snd kv)) kvs) 0)"
| "nesting _ = 0"

definition JSON_stringify :: "nat \<Rightarrow> 'p json \<Rightarrow> js_error + unit" where
  "JSON_stringify stack v = (if nesting v > stack then Inl RangeError else Inr ())"

text \<open>
  \<^verbatim>\<open>logConnection\<close> prints \<^verbatim>\<open>details ? JSON.stringify(details) : ""\<close>; printing has no
  effect on the server, but the call throws when \<^verbatim>\<open>JSON.stringify\<close> does. Every call
  but the one in the relay branch of the signal handler passes no details or a flat
  object of strings and numbers, which always fits; those calls are left out of the
  handlers below.
\<close>

definition logConnection :: "nat \<Rightarrow> 'p json option \<Rightarrow> js_error + unit" where
  "logConnection stack details =
     (case details of None \<Rightarrow> Inr () | Some d \<Rightarrow> JSON_stringify stack d)"

section \<open>Utility functions\<close>

text \<open>
  \<^verbatim>\<open>cleanupUser\<close>: delete both directions of the pairing when \<^verbatim>\<open>peers.get(socketId)\<close>
  is truthy, filter the queue, delete the metadata.
\<close>

definition cleanupUser :: "string \<Rightarrow> server \<Rightarrow> server" where
  "cleanupUser sid st =
     (let st1 = (case peers st sid of
                   None \<Rightarrow> st
                 | Some peerSocketId \<Rightarrow>
                     if truthy peerSocketId
                     then st\<lparr>peers := ((peers st)(peerSocketId := None))(sid := None)\<rparr>
                     else st);
          st2 = st1\<lparr>waitingQueue := filter (\<lambda>u. socketId u \<noteq> sid) (waitingQueue st1)\<rparr>
      in st2\<lparr>userInfo := (userInfo st2)(sid := None)\<rparr>)"

text \<open>
  \<^verbatim>\<open>findMatch\<close>: \<^verbatim>\<open>null\<close> on an empty queue, otherwise shift the queue and return the
  id of the removed head. The argument \<^verbatim>\<open>currentSocketId\<close> is not used by the body.
\<close>

definition findMatch :: "string \<Rightarrow> server \<Rightarrow> string option \<times> server" where
  "findMatch currentSocketId st =
     (case waitingQueue st of
        [] \<Rightarrow> (None, st)
      | matchedUser # rest \<Rightarrow> (Some (socketId matchedUser), st\<lparr>waitingQueue := rest\<rparr>))"

section \<open>Event handlers\<close>

text \<open>
  Each handler returns the new server state and the list of emissions, in order. An
  emission is a call of \<^verbatim>\<open>emit\<close>; what the gateway then does with it is not part of the
  server.
  The set \<open>sockets\<close> stands for the gateway's \<^verbatim>\<open>io.sockets.sockets\<close>, the ids of the
  connections that are open when the handler runs; it belongs to socket.io and is only
  read here.
\<close>

text \<open>
  \<^verbatim>\<open>io.on("connection")\<close>: the user object is built from the socket id, the current date
  and the user-agent header.
\<close>

definition connection :: "string \<Rightarrow> int \<Rightarrow> string option \<Rightarrow> server \<Rightarrow> server \<times> 'p emission list" where
  "connection sid now ua st =
     (let usr = \<lparr>socketId = sid, joinedAt = now, userAgent = ua\<rparr>;
          st1 = st\<lparr>userInfo := (userInfo st)(sid \<mapsto> usr)\<rparr>;
          (found, st2) = findMatch sid st1;
          enqueue = (st2\<lparr>waitingQueue := waitingQueue st2 @ [usr]\<rparr>, [(sid, WaitingForPeer)])
      in case found of
           None \<Rightarrow> enqueue
         | Some peerSocketId \<Rightarrow>
             if truthy peerSocketId
             then (st2\<lparr>peers := ((peers st2)(sid \<mapsto> peerSocketId))(peerSocketId \<mapsto> sid)\<rparr>,
                   [(peerSocketId, MatchFound sid True), (sid, MatchFound peerSocketId False)])
             else enqueue)"

text \<open>
  \<^verbatim>\<open>socket.on("signal")\<close>: before it emits, the relay branch calls \<^verbatim>\<open>logConnection\<close>
  with the details \<^verbatim>\<open>{ to: peerSocketId, type: payload.type }\<close>. Building the details
  reads \<^verbatim>\<open>payload.type\<close>; a property whose value is \<^verbatim>\<open>undefined\<close> is not part of what
  \<^verbatim>\<open>JSON.stringify\<close> descends into. All of this is inside \<^verbatim>\<open>try\<close>, and the \<^verbatim>\<open>catch\<close>
  block only logs the error's message, so a throw ends the handler with nothing emitted.
\<close>

definition relay_details :: "string \<Rightarrow> 'p js_value \<Rightarrow> 'p json" where
  "relay_details peerSocketId ty =
     JObject ((''to'', JString peerSocketId) #
              (case ty of JSUndefined \<Rightarrow> [] | JSON v \<Rightarrow> [(''type'', v)]))"

definition signal :: "string set \<Rightarrow> nat \<Rightarrow> string \<Rightarrow> 'p js_value \<Rightarrow> server \<Rightarrow> server \<times> 'p emission list" where
  "signal sockets stack sid payload st =
     (let no_peer = (st, [(sid, ErrorMsg ''No active peer connection'')]);
          caught = (st, [])
      in case peers st sid of
           None \<Rightarrow> no_peer
         | Some peerSocketId \<Rightarrow>
             if truthy peerSocketId \<and> peerSocketId \<in> sockets
             then (case get_type payload of
                     Inl err \<Rightarrow> caught
                   | Inr ty \<Rightarrow>
                       (case logConnection stack (Some (relay_details peerSocketId ty)) of
                          Inl err \<Rightarrow> caught
                        | Inr _ \<Rightarrow> (st, [(peerSocketId, SignalMsg payload)])))
             else no_peer)"

text \<open>
  \<^verbatim>\<open>socket.on("find-next")\<close>: the handler closes over the \<^verbatim>\<open>user\<close> object built when the
  socket connected, and pushes that same object when no match is found.
\<close>

definition find_next :: "user \<Rightarrow> server \<Rightarrow> server \<times> 'p emission list" where
  "find_next usr st =
     (let sid = socketId usr;
          (st1, out1) = (case peers st sid of
                           None \<Rightarrow> (st, [])
                         | Some currentPeer \<Rightarrow>
                             if truthy currentPeer
                             then (st\<lparr>peers := ((peers st)(currentPeer := None))(sid := None)\<rparr>,
                                   [(currentPeer, PeerDisconnected)])
                             else (st, []));
          (found, st2) = findMatch sid st1;
          enqueue = (st2\<lparr>waitingQueue := waitingQueue st2 @ [usr]\<rparr>, out1 @ [(sid, WaitingForPeer)])
      in case found of
           None \<Rightarrow> enqueue
         | Some newPeerSocketId \<Rightarrow>
             if truthy newPeerSocketId
             then (st2\<lparr>peers := ((peers st2)(sid \<mapsto> newPeerSocketId))(newPeerSocketId \<mapsto> sid)\<rparr>,
                   out1 @ [(newPeerSocketId, MatchFound sid True), (sid, MatchFound newPeerSocketId False)])
             else enqueue)"

text \<open>\<^verbatim>\<open>socket.on("disconnect")\<close>.\<close>

definition disconnect :: "string set \<Rightarrow> string \<Rightarrow> server \<Rightarrow> server \<times> 'p emission list" where
  "disconnect sockets sid st =
     (let out = (case peers st sid of
                   None \<Rightarrow> []
                 | Some peerSocketId \<Rightarrow>
                     if truthy peerSocketId \<and> peerSocketId \<in> sockets
                     then [(peerSocketId, PeerDisconnected)]
                     else [])
      in (cleanupUser sid st, out))"

text \<open>The body of the \<^verbatim>\<open>setInterval\<close> callback, with \<^verbatim>\<open>Date.now()\<close> as argument.\<close>

definition timeout :: int where
  "timeout = 5 * 60 * 1000"

definition sweep_interval :: int where
  "sweep_interval = 60000"

definition isExpired :: "int \<Rightarrow> user \<Rightarrow> bool" where
  "isExpired now u \<longleftrightarrow> now - joinedAt u > timeout"

definition expire :: "int \<Rightarrow> server \<Rightarrow> server \<times> 'p emission list" where
  "expire now st = (st\<lparr>waitingQueue := filter (\<lambda>u. \<not> isExpired now u) (waitingQueue st)\<rparr>, [])"

section \<open>Runs of the server\<close>

text \<open>
  The gateway delivers one event at a time. A run is a list of events applied from the
  initial state. Events carry what the handler reads from its environment at that
  moment: the content of \<^verbatim>\<open>io.sockets.sockets\<close>, and for a signal the room left on the
  call stack.
\<close>

datatype 'p event =
    Connect string int "string option"
  | Signal "string set" nat string "'p js_value"
  | FindNext user
  | Disconnect "string set" string
  | Sweep int

fun step :: "'p event \<Rightarrow> server \<Rightarrow> server \<times> 'p emission list" where
  "step (Connect sid now ua) st = connection sid now ua st"
| "step (Signal sockets stack sid payload) st = signal sockets stack sid payload st"
| "step (FindNext usr) st = find_next usr st"
| "step (Disconnect sockets sid) st = disconnect sockets sid st"
| "step (Sweep now) st = expire now st"

fun exec :: "server \<Rightarrow> 'p event list \<Rightarrow> server" where
  "exec st [] = st"
| "exec st (e # es) = exec (fst (step e st)) es"

text \<open>
  What the gateway guarantees: socket ids are non-empty strings, and the id of a new
  connection is not one the server still holds (in the queue or as a key of the pair
  table).
\<close>

definition queued :: "server \<Rightarrow> string \<Rightarrow> bool" where
  "queued st sid \<longleftrightarrow> sid \<in> set (map socketId (waitingQueue st))"

fun enabled :: "server \<Rightarrow> 'p event \<Rightarrow> bool" where
  "enabled st (Connect sid now ua) = (truthy sid \<and> peers st sid = None \<and> \<not> queued st sid)"
| "enabled st (Signal sockets stack sid payload) = truthy sid"
| "enabled st (FindNext usr) = truthy (socketId usr)"
| "enabled st (Disconnect sockets sid) = truthy sid"
| "enabled st (Sweep now) = True"

fun admissible :: "server \<Rightarrow> 'p event list \<Rightarrow> bool" where
  "admissible st [] = True"
| "admissible st (e # es) = (enabled st e \<and> admissible (fst (step e st)) es)"


text \<open>
  The gateway itself, seen from outside the server: \<open>opn\<close> is the set of ids of the open
  connections. socket.io gives a new connection an id that no open connection has,
  delivers messages and the disconnect event only for open connections, and an id stops
  being open when its disconnect event is delivered. The ids \<open>held\<close> by the server are
  the keys of the pair table and the ids in the queue.
\<close>

definition held :: "server \<Rightarrow> string set" where
  "held st = dom (peers st) \<union> socketId ` set (waitingQueue st)"

fun gateway_ok :: "string set \<Rightarrow> 'p event list \<Rightarrow> bool" where
  "gateway_ok opn [] = True"
| "gateway_ok opn (Connect sid now ua # es) =
     (truthy sid \<and> sid \<notin> opn \<and> gateway_ok (insert sid opn) es)"
| "gateway_ok opn (Signal sockets stack sid payload # es) = (sid \<in> opn \<and> gateway_ok opn es)"
| "gateway_ok opn (FindNext usr # es) = (socketId usr \<in> opn \<and> gateway_ok opn es)"
| "gateway_ok opn (Disconnect sockets sid # es) = (sid \<in> opn \<and> gateway_ok (opn - {sid}) es)"
| "gateway_ok opn (Sweep now # es) = gateway_ok opn es"

section \<open>The first version of the server\<close>

text \<open>
  \<^verbatim>\<open>omegle_server/src/index.ts\<close> is the earlier, smaller server: the queue holds socket
  ids, there is no metadata map, no \<^verbatim>\<open>waiting-for-peer\<close> and no \<^verbatim>\<open>error\<close> message, no
  test that the partner is still open and no sweep. Its names are suffixed with \<open>_ts\<close>
  where they would clash. \<^verbatim>\<open>handleDisconnect\<close> removes the pairing if there is one and
  otherwise removes the first occurrence of the id from the queue; the find-next handler
  calls it before matching. The signal handler evaluates \<^verbatim>\<open>Object.keys(payload)\<close> for
  its log line, which throws a TypeError on \<^verbatim>\<open>undefined\<close> and \<^verbatim>\<open>null\<close>, outside any
  \<^verbatim>\<open>try\<close>. A signal never changes the state, so the runs of this server consist of
  connections, find-next requests and disconnections only.
\<close>

record server_ts =
  waitingQueue_ts :: "string list"
  peers_ts :: "string \<rightharpoonup> string"

definition initial_ts :: server_ts where
  "initial_ts = \<lparr>waitingQueue_ts = [], peers_ts = Map.empty\<rparr>"

definition object_keys :: "'p js_value \<Rightarrow> js_error + unit" where
  "object_keys payload =
     (case payload of JSUndefined \<Rightarrow> Inl TypeError | JSON JNull \<Rightarrow> Inl TypeError | JSON _ \<Rightarrow> Inr ())"

definition handleDisconnect :: "string \<Rightarrow> server_ts \<Rightarrow> server_ts \<times> 'p emission list" where
  "handleDisconnect sid st =
     (let in_queue = st\<lparr>waitingQueue_ts := remove1 sid (waitingQueue_ts st)\<rparr>
      in case peers_ts st sid of
           None \<Rightarrow> (in_queue, [])
         | Some peerSocketId \<Rightarrow>
             if truthy peerSocketId
             then (st\<lparr>peers_ts := ((peers_ts st)(peerSocketId := None))(sid := None)\<rparr>,
                   [(peerSocketId, PeerDisconnected)])
             else (in_queue, []))"

definition connection_ts :: "string \<Rightarrow> server_ts \<Rightarrow> server_ts \<times> 'p emission list" where
  "connection_ts sid st =
     (case waitingQueue_ts st of
        peerSocketId # rest \<Rightarrow>
          (st\<lparr>waitingQueue_ts := rest,
              peers_ts := ((peers_ts st)(sid \<mapsto> peerSocketId))(peerSocketId \<mapsto> sid)\<rparr>,
           [(peerSocketId, MatchFound sid True), (sid, MatchFound peerSocketId False)])
      | [] \<Rightarrow> (st\<lparr>waitingQueue_ts := waitingQueue_ts st @ [sid]\<rparr>, []))"

definition signal_ts :: "string \<Rightarrow> 'p js_value \<Rightarrow> server_ts \<Rightarrow> js_error + server_ts \<times> 'p emission list" where
  "signal_ts sid payload st =
     (case peers_ts st sid of
        None \<Rightarrow> Inr (st, [])
      | Some peerSocketId \<Rightarrow>
          if truthy peerSocketId
          then (case object_keys payload of
                  Inl err \<Rightarrow> Inl err
                | Inr _ \<Rightarrow> Inr (st, [(peerSocketId, SignalMsg payload)]))
          else Inr (st, []))"

definition find_next_ts :: "string \<Rightarrow> server_ts \<Rightarrow> server_ts \<times> 'p emission list" where
  "find_next_ts sid st =
     (let (st1, out1) = handleDisconnect sid st
      in case waitingQueue_ts st1 of
           peerSocketId # rest \<Rightarrow>
             (st1\<lparr>waitingQueue_ts := rest,
                  peers_ts := ((peers_ts st1)(sid \<mapsto> peerSocketId))(peerSocketId \<mapsto> sid)\<rparr>,
              out1 @ [(peerSocketId, MatchFound sid True), (sid, MatchFound peerSocketId False)])
         | [] \<Rightarrow> (st1\<lparr>waitingQueue_ts := waitingQueue_ts st1 @ [sid]\<rparr>, out1))"

definition disconnect_ts :: "string \<Rightarrow> server_ts \<Rightarrow> server_ts \<times> 'p emission list" where
  "disconnect_ts sid st = handleDisconnect sid st"

datatype event_ts = Connect_ts string | FindNext_ts string | Disconnect_ts string

fun step_ts :: "event_ts \<Rightarrow> server_ts \<Rightarrow> server_ts" where
  "step_ts (Connect_ts sid) st = fst (connection_ts sid st :: server_ts \<times> unit emission list)"
| "step_ts (FindNext_ts sid) st = fst (find_next_ts sid st :: server_ts \<times> unit emission list)"
| "step_ts (Disconnect_ts sid) st = fst (disconnect_ts sid st :: server_ts \<times> unit emission list)"

fun exec_ts :: "server_ts \<Rightarrow> event_ts list \<Rightarrow> server_ts" where
  "exec_ts st [] = st"
| "exec_ts st (e # es) = exec_ts (step_ts e st) es"

fun enabled_ts :: "server_ts \<Rightarrow> event_ts \<Rightarrow> bool" where
  "enabled_ts st (Connect_ts sid) = (truthy sid \<and> peers_ts st sid = None \<and> sid \<notin> set (waitingQueue_ts st))"
| "enabled_ts st (FindNext_ts sid) = truthy sid"
| "enabled_ts st (Disconnect_ts sid) = truthy sid"

fun admissible_ts :: "server_ts \<Rightarrow> event_ts list \<Rightarrow> bool" where
  "admissible_ts st [] = True"
| "admissible_ts st (e # es) = (enabled_ts st e \<and> admissible_ts (step_ts e st) es)"

section \<open>Blocks shared by the handlers\<close>

text \<open>
  The connection handler and the find-next handler contain the same matchmaking block
  (\<^verbatim>\<open>findMatch\<close>, then either the two \<^verbatim>\<open>peers.set\<close> calls and the two
  \<^verbatim>\<open>match-found\<close> emissions, or \<^verbatim>\<open>waitingQueue.push(user)\<close> and
  \<^verbatim>\<open>waiting-for-peer\<close>). The find-next handler and \<^verbatim>\<open>cleanupUser\<close> both start by
  deleting the two directions of the caller's pairing. The two blocks are written out
  here on their own; the handlers above are proved equal to their compositions below.
\<close>

definition leave_pairing :: "string \<Rightarrow> server \<Rightarrow> server \<times> 'p emission list" where
  "leave_pairing sid st =
     (case peers st sid of
        None \<Rightarrow> (st, [])
      | Some currentPeer \<Rightarrow>
          if truthy currentPeer
          then (st\<lparr>peers := ((peers st)(currentPeer := None))(sid := None)\<rparr>,
                [(currentPeer, PeerDisconnected)])
          else (st, []))"

definition matchmaking :: "user \<Rightarrow> server \<Rightarrow> server \<times> 'p emission list" where
  "matchmaking usr st =
     (case waitingQueue st of
        [] \<Rightarrow> (st\<lparr>waitingQueue := [usr]\<rparr>, [(socketId usr, WaitingForPeer)])
      | h # rest \<Rightarrow>
          if truthy (socketId h)
          then (st\<lparr>waitingQueue := rest,
                   peers := ((peers st)(socketId usr \<mapsto> socketId h))(socketId h \<mapsto> socketId usr)\<rparr>,
                [(socketId h, MatchFound (socketId usr) True),
                 (socketId usr, MatchFound (socketId h) False)])
          else (st\<lparr>waitingQueue := rest @ [usr]\<rparr>, [(socketId usr, WaitingForPeer)]))"

text \<open>
  Step 1 of the operation OnFindNext as the specification words it: if the id has a
  partner in the pair table, emit \<^verbatim>\<open>peer-disconnected\<close> to the partner and remove both
  directions of the pairing. It has no truthiness test; it is compared with the code's
  block in the theorem about find-next.
\<close>

definition spec_leave_pairing :: "string \<Rightarrow> server \<Rightarrow> server \<times> 'p emission list" where
  "spec_leave_pairing sid st =
     (case peers st sid of
        None \<Rightarrow> (st, [])
      | Some partner \<Rightarrow>
          (st\<lparr>peers := ((peers st)(partner := None))(sid := None)\<rparr>, [(partner, PeerDisconnected)]))"

section \<open>Invariants\<close>

text \<open>
  A pair table is symmetric when every entry has its mirror entry. The server invariant
  adds what is needed to carry symmetry through a run: ids held by the server are
  truthy, no queued id is a key of the pair table, and the queue never holds more than
  one entry (a push only happens when \<^verbatim>\<open>findMatch\<close> found the queue empty).
\<close>

definition symmetric :: "(string \<rightharpoonup> string) \<Rightarrow> bool" where
  "symmetric m \<longleftrightarrow> (\<forall>a b. m a = Some b \<longrightarrow> m b = Some a)"

definition all_truthy :: "(string \<rightharpoonup> string) \<Rightarrow> bool" where
  "all_truthy m \<longleftrightarrow> (\<forall>a b. m a = Some b \<longrightarrow> truthy a \<and> truthy b)"

definition server_inv :: "server \<Rightarrow> bool" where
  "server_inv st \<longleftrightarrow>
     symmetric (peers st) \<and> all_truthy (peers st) \<and>
     (\<forall>u \<in> set (waitingQueue st). truthy (socketId u) \<and> peers st (socketId u) = None) \<and>
     length (waitingQueue st) \<le> 1"


text \<open>The same invariant for the first version of the server.\<close>

definition inv_ts :: "server_ts \<Rightarrow> bool" where
  "inv_ts st \<longleftrightarrow>
     symmetric (peers_ts st) \<and> all_truthy (peers_ts st) \<and>
     (\<forall>s \<in> set (waitingQueue_ts st). truthy s \<and> peers_ts st s = None) \<and>
     length (waitingQueue_ts st) \<le> 1"

section \<open>Example runs\<close>

text \<open>
  Small runs used to evaluate the handlers: A connects and waits; then B connects and is
  paired with A; then A asks for the next peer and is queued again.
\<close>

definition userA :: user where
  "userA = \<lparr>socketId = ''A'', joinedAt = 0, userAgent = None\<rparr>"

definition run_waiting :: "unit event list" where
  "run_waiting = [Connect ''A'' 0 None]"

definition run_paired :: "unit event list" where
  "run_paired = [Connect ''A'' 0 None, Connect ''B'' 1 None]"

definition run_requeued :: "unit event list" where
  "run_requeued = [Connect ''A'' 0 None, Connect ''B'' 1 None, FindNext userA, Sweep 5]"

text \<open>
  A value nested \<open>n + 1\<close> arrays deep, and a signal payload carrying it as its
  \<^verbatim>\<open>type\<close>, as a client can send it in a frame.
\<close>

fun nested :: "nat \<Rightarrow> 'p json" where
  "nested 0 = JArray []"
| "nested (Suc n) = JArray [nested n]"

definition deep_payload :: "nat \<Rightarrow> 'p js_value" where
  "deep_payload n = JSON (JObject [(''type'', nested n)])"

section \<open>Pair tables as maps\<close>

lemma symmetricD: "symmetric m \<Longrightarrow> m a = Some b \<Longrightarrow> m b = Some a"
  unfolding symmetric_def by blast

lemma symmetric_unpair:
  assumes "symmetric m" "m a = Some b"
  shows "symmetric ((m(b := None))(a := None))"
  unfolding symmetric_def
proof (intro allI impI)
  fix x y assume h: "((m(b := None))(a := None)) x = Some y"
  then have xa: "x \<noteq> a" and xb: "x \<noteq> b" and mx: "m x = Some y" by (auto split: if_splits)
  from assms(1) mx have my: "m y = Some x" by (rule symmetricD)
  from assms(1) assms(2) have mb: "m b = Some a" by (rule symmetricD)
  from my assms(2) xb have "y \<noteq> a" by auto
  moreover from my mb xa have "y \<noteq> b" by auto
  ultimately show "((m(b := None))(a := None)) y = Some x" using my by simp
qed

lemma symmetric_pair:
  assumes "symmetric m" "m a = None" "m b = None"
  shows "symmetric ((m(a \<mapsto> b))(b \<mapsto> a))"
  unfolding symmetric_def
proof (intro allI impI)
  fix x y assume h: "((m(a \<mapsto> b))(b \<mapsto> a)) x = Some y"
  show "((m(a \<mapsto> b))(b \<mapsto> a)) y = Some x"
  proof (cases "x = a \<or> x = b")
    case True
    with h show ?thesis by (auto split: if_splits)
  next
    case False
    with h have mx: "m x = Some y" by (auto split: if_splits)
    from assms(1) mx have my: "m y = Some x" by (rule symmetricD)
    with assms(2,3) have "y \<noteq> a" "y \<noteq> b" by auto
    with my show ?thesis by simp
  qed
qed

lemma all_truthy_unpair: "all_truthy m \<Longrightarrow> all_truthy ((m(b := None))(a := None))"
  unfolding all_truthy_def by (auto split: if_splits)

lemma all_truthy_pair: "all_truthy m \<Longrightarrow> truthy a \<Longrightarrow> truthy b \<Longrightarrow> all_truthy ((m(a \<mapsto> b))(b \<mapsto> a))"
  unfolding all_truthy_def by (auto split: if_splits)



section \<open>The handlers as compositions of the shared blocks\<close>

lemma connection_matchmaking:
  "connection sid now ua st =
     matchmaking \<lparr>socketId = sid, joinedAt = now, userAgent = ua\<rparr>
       (st\<lparr>userInfo := (userInfo st)(sid \<mapsto> \<lparr>socketId = sid, joinedAt = now, userAgent = ua\<rparr>)\<rparr>)"
  by (simp add: connection_def matchmaking_def findMatch_def Let_def split: list.splits)

lemma find_next_matchmaking:
  "find_next usr st =
     (let (st1, out1) = leave_pairing (socketId usr) st;
          (st2, out2) = matchmaking usr st1
      in (st2, out1 @ out2))"
  by (simp add: find_next_def leave_pairing_def matchmaking_def findMatch_def Let_def
      split: list.splits option.splits)

lemma disconnect_state: "fst (disconnect sockets sid st) = cleanupUser sid st"
  by (simp add: disconnect_def Let_def)

lemma cleanupUser_leave:
  "cleanupUser sid st =
     (let st1 = fst (leave_pairing sid st :: server \<times> unit emission list)
      in st1\<lparr>waitingQueue := filter (\<lambda>u. socketId u \<noteq> sid) (waitingQueue st1),
             userInfo := (userInfo st1)(sid := None)\<rparr>)"
  by (simp add: cleanupUser_def leave_pairing_def Let_def split: option.splits)


section \<open>The invariant holds along every run\<close>

lemma inv_initial: "server_inv initial"
  by (simp add: server_inv_def symmetric_def all_truthy_def initial_def)

lemma inv_userInfo [simp]: "server_inv (st\<lparr>userInfo := x\<rparr>) = server_inv st"
  by (simp add: server_inv_def)

lemma inv_leave_pairing:
  assumes "server_inv st"
  shows "server_inv (fst (leave_pairing sid st))"
proof (cases "peers st sid")
  case None
  with assms show ?thesis by (simp add: leave_pairing_def)
next
  case (Some c)
  from assms have s: "symmetric (peers st)" and t: "all_truthy (peers st)"
    and q: "\<forall>u \<in> set (waitingQueue st). truthy (socketId u) \<and> peers st (socketId u) = None"
    and l: "length (waitingQueue st) \<le> 1"
    by (simp_all add: server_inv_def)
  from t Some have tc: "truthy c" unfolding all_truthy_def by blast
  have st': "fst (leave_pairing sid st) = st\<lparr>peers := ((peers st)(c := None))(sid := None)\<rparr>"
    using Some tc by (simp add: leave_pairing_def)
  show ?thesis
    unfolding st' server_inv_def
    using symmetric_unpair [OF s Some] all_truthy_unpair [OF t] q l by simp
qed

lemma leave_pairing_unpaired:
  assumes "server_inv st"
  shows "peers (fst (leave_pairing sid st)) sid = None"
proof (cases "peers st sid")
  case None
  then show ?thesis by (simp add: leave_pairing_def)
next
  case (Some c)
  from assms have "all_truthy (peers st)" by (simp add: server_inv_def)
  with Some have "truthy c" unfolding all_truthy_def by blast
  with Some show ?thesis by (simp add: leave_pairing_def)
qed

lemma leave_pairing_queue [simp]:
  "waitingQueue (fst (leave_pairing sid st)) = waitingQueue st"
  by (simp add: leave_pairing_def split: option.splits)

lemma leave_pairing_userInfo [simp]:
  "userInfo (fst (leave_pairing sid st)) = userInfo st"
  by (simp add: leave_pairing_def split: option.splits)

lemma queue_cases:
  assumes "length (waitingQueue st) \<le> 1"
  obtains "waitingQueue st = []" | h where "waitingQueue st = [h]"
  using assms by (cases "waitingQueue st") auto

lemma inv_matchmaking:
  assumes "server_inv st" "truthy (socketId usr)" "peers st (socketId usr) = None"
  shows "server_inv (fst (matchmaking usr st))"
proof -
  from assms(1) have s: "symmetric (peers st)" and t: "all_truthy (peers st)"
    and q: "\<forall>u \<in> set (waitingQueue st). truthy (socketId u) \<and> peers st (socketId u) = None"
    and l: "length (waitingQueue st) \<le> 1"
    by (simp_all add: server_inv_def)
  show ?thesis
  proof (cases rule: queue_cases [OF l])
    case 1
    then show ?thesis
      using s t assms(2,3) by (simp add: matchmaking_def server_inv_def)
  next
    case (2 h)
    with q have th: "truthy (socketId h)" and ph: "peers st (socketId h) = None" by simp_all
    have st': "fst (matchmaking usr st) =
        st\<lparr>waitingQueue := [],
           peers := ((peers st)(socketId usr \<mapsto> socketId h))(socketId h \<mapsto> socketId usr)\<rparr>"
      using 2 th by (simp add: matchmaking_def)
    show ?thesis
      unfolding st' server_inv_def
      using symmetric_pair [OF s assms(3) ph] all_truthy_pair [OF t assms(2) th] by simp
  qed
qed


lemma inv_filter:
  assumes "server_inv st"
  shows "server_inv (st\<lparr>waitingQueue := filter P (waitingQueue st)\<rparr>)"
proof -
  have "length (filter P (waitingQueue st)) \<le> length (waitingQueue st)" by simp
  also from assms have "\<dots> \<le> 1" by (simp add: server_inv_def)
  finally have "length (filter P (waitingQueue st)) \<le> 1" .
  with assms show ?thesis unfolding server_inv_def by simp
qed

lemma inv_cleanupUser:
  assumes "server_inv st"
  shows "server_inv (cleanupUser sid st)"
proof -
  have "server_inv (fst (leave_pairing sid st :: server \<times> unit emission list))"
    using assms by (rule inv_leave_pairing)
  then show ?thesis
    unfolding cleanupUser_leave Let_def
    using inv_filter [of "fst (leave_pairing sid st :: server \<times> unit emission list)" "\<lambda>u. socketId u \<noteq> sid"]
    by simp
qed

lemma signal_state: "fst (signal sockets stack sid payload st) = st"
  by (simp add: signal_def Let_def split: option.splits sum.splits)

lemma find_next_state:
  "fst (find_next usr st :: server \<times> 'p emission list) =
   fst (matchmaking usr (fst (leave_pairing (socketId usr) st :: server \<times> 'p emission list))
          :: server \<times> 'p emission list)"
  by (simp add: find_next_matchmaking split: prod.splits)

lemma inv_find_next:
  assumes "server_inv st" "truthy (socketId usr)"
  shows "server_inv (fst (find_next usr st :: server \<times> 'p emission list))"
proof -
  let ?st1 = "fst (leave_pairing (socketId usr) st :: server \<times> 'p emission list)"
  have i1: "server_inv ?st1" using assms(1) by (rule inv_leave_pairing)
  have u1: "peers ?st1 (socketId usr) = None" using assms(1) by (rule leave_pairing_unpaired)
  show ?thesis
    unfolding find_next_state using i1 assms(2) u1 by (rule inv_matchmaking)
qed

lemma inv_connection:
  assumes "server_inv st" "truthy sid" "peers st sid = None"
  shows "server_inv (fst (connection sid now ua st))"
  unfolding connection_matchmaking
  by (rule inv_matchmaking) (use assms in simp_all)

lemma inv_expire:
  assumes "server_inv st"
  shows "server_inv (fst (expire now st))"
  using inv_filter [OF assms] by (simp add: expire_def)

lemma inv_step:
  assumes "server_inv st" "enabled st e"
  shows "server_inv (fst (step e st))"
proof (cases e)
  case (Connect sid now ua)
  with assms show ?thesis by (simp add: inv_connection)
next
  case (Signal sockets stack sid payload)
  with assms show ?thesis by (simp add: signal_state)
next
  case (FindNext usr)
  with assms show ?thesis by (simp add: inv_find_next)
next
  case (Disconnect sockets sid)
  with assms show ?thesis by (simp add: disconnect_state inv_cleanupUser)
next
  case (Sweep now)
  with assms show ?thesis by (simp add: inv_expire)
qed

lemma inv_exec:
  assumes "server_inv st" "admissible st es"
  shows "server_inv (exec st es)"
  using assms
proof (induction es arbitrary: st)
  case Nil
  then show ?case by simp
next
  case (Cons e es)
  from Cons.prems have "server_inv (fst (step e st))" by (simp add: inv_step)
  moreover from Cons.prems have "admissible (fst (step e st)) es" by simp
  ultimately show ?case using Cons.IH by simp
qed

lemma inv_reachable: "admissible initial es \<Longrightarrow> server_inv (exec initial es)"
  using inv_initial by (rule inv_exec)



section \<open>What find-next leaves behind\<close>

lemma spec_leave_pairing_inv:
  assumes "server_inv st"
  shows "spec_leave_pairing sid st = leave_pairing sid st"
proof (cases "peers st sid")
  case None
  then show ?thesis by (simp add: spec_leave_pairing_def leave_pairing_def)
next
  case (Some c)
  from assms have "all_truthy (peers st)" by (simp add: server_inv_def)
  with Some have "truthy c" unfolding all_truthy_def by blast
  with Some show ?thesis by (simp add: spec_leave_pairing_def leave_pairing_def)
qed

lemma matchmaking_userInfo:
  "(matchmaking usr (st\<lparr>userInfo := x\<rparr>) :: server \<times> 'p emission list) =
     ((fst (matchmaking usr st :: server \<times> 'p emission list))\<lparr>userInfo := x\<rparr>,
      snd (matchmaking usr st :: server \<times> 'p emission list))"
  by (simp add: matchmaking_def split: list.splits)

lemma matchmaking_keeps_userInfo [simp]:
  "userInfo (fst (matchmaking usr st)) = userInfo st"
  by (simp add: matchmaking_def split: list.splits)

lemma find_next_as_connection:
  "find_next usr st =
     (let (st1, out1) = leave_pairing (socketId usr) st;
          (st2, out2) = connection (socketId usr) (joinedAt usr) (userAgent usr) st1
      in (st2\<lparr>userInfo := userInfo st\<rparr>, out1 @ out2))"
proof -
  have u: "\<lparr>socketId = socketId usr, joinedAt = joinedAt usr, userAgent = userAgent usr\<rparr> = usr"
    by simp
  obtain st1 and out1 :: "'a emission list" where l: "leave_pairing (socketId usr) st = (st1, out1)"
    by (cases "leave_pairing (socketId usr) st :: server \<times> 'a emission list")
  then have ui: "userInfo st1 = userInfo st"
    using leave_pairing_userInfo [of "socketId usr" st, where 'a = 'a] by simp
  obtain st2 and out2 :: "'a emission list" where m: "matchmaking usr st1 = (st2, out2)"
    by (cases "matchmaking usr st1 :: server \<times> 'a emission list")
  then have ui2: "userInfo st2 = userInfo st"
    using matchmaking_keeps_userInfo [of usr st1, where 'a = 'a] ui by simp
  have r: "st2\<lparr>userInfo := userInfo st\<rparr> = st2" using ui2 by simp
  have mm: "matchmaking usr (st1\<lparr>userInfo := (userInfo st1)(socketId usr \<mapsto> usr)\<rparr>)
              = (st2\<lparr>userInfo := (userInfo st1)(socketId usr \<mapsto> usr)\<rparr>, out2)"
    using matchmaking_userInfo [where usr = usr and st = st1 and x = "(userInfo st1)(socketId usr \<mapsto> usr)" and 'p = 'a] m
    by simp
  have "find_next usr st = (st2, out1 @ out2)"
    by (simp add: find_next_matchmaking l m)
  moreover have "connection (socketId usr) (joinedAt usr) (userAgent usr) st1
                   = (st2\<lparr>userInfo := (userInfo st1)(socketId usr \<mapsto> usr)\<rparr>, out2)"
    by (simp only: connection_matchmaking u mm)
  ultimately show ?thesis
    using r by (simp add: l)
qed


lemma matchmaking_empty:
  "waitingQueue st = [] \<Longrightarrow>
   matchmaking usr st = (st\<lparr>waitingQueue := [usr]\<rparr>, [(socketId usr, WaitingForPeer)])"
  by (simp add: matchmaking_def)

lemma matchmaking_head:
  "waitingQueue st = h # rest \<Longrightarrow> truthy (socketId h) \<Longrightarrow>
   matchmaking usr st =
     (st\<lparr>waitingQueue := rest,
         peers := ((peers st)(socketId usr \<mapsto> socketId h))(socketId h \<mapsto> socketId usr)\<rparr>,
      [(socketId h, MatchFound (socketId usr) True), (socketId usr, MatchFound (socketId h) False)])"
  by (simp add: matchmaking_def)

lemma leave_pairing_peers:
  assumes "server_inv st" "peers st sid = Some c"
  shows "peers (fst (leave_pairing sid st)) = ((peers st)(c := None))(sid := None)"
proof -
  from assms have "truthy c" unfolding server_inv_def all_truthy_def by blast
  with assms(2) show ?thesis by (simp add: leave_pairing_def)
qed

lemma find_next_outcome:
  fixes usr :: user and st :: server
  defines "st' \<equiv> fst (find_next usr st :: server \<times> 'p emission list)"
  assumes inv: "server_inv st" and tr: "truthy (socketId usr)"
  shows "(\<forall>c. peers st (socketId usr) = Some c \<longrightarrow>
            peers st' (socketId usr) \<noteq> Some c \<and> peers st' c \<noteq> Some (socketId usr))
       \<and> ((\<exists>h rest. waitingQueue st = h # rest \<and> waitingQueue st' = rest
              \<and> peers st' (socketId usr) = Some (socketId h)
              \<and> peers st' (socketId h) = Some (socketId usr))
          \<or> (waitingQueue st = [] \<and> waitingQueue st' = [usr] \<and> peers st' (socketId usr) = None))"
proof -
  let ?sid = "socketId usr"
  let ?st1 = "fst (leave_pairing ?sid st :: server \<times> 'p emission list)"
  have st': "st' = fst (matchmaking usr ?st1 :: server \<times> 'p emission list)"
    unfolding st'_def by (rule find_next_state)
  have inv1: "server_inv ?st1" using inv by (rule inv_leave_pairing)
  have un1: "peers ?st1 ?sid = None" using inv by (rule leave_pairing_unpaired)
  have q1: "waitingQueue ?st1 = waitingQueue st" by simp
  from inv have len: "length (waitingQueue st) \<le> 1"
    and qd: "\<forall>u \<in> set (waitingQueue st). truthy (socketId u) \<and> peers st (socketId u) = None"
    and sym: "symmetric (peers st)"
    by (simp_all add: server_inv_def)
  show ?thesis
  proof (cases rule: queue_cases [OF len])
    case 1
    then have e: "st' = ?st1\<lparr>waitingQueue := [usr]\<rparr>"
      unfolding st' using q1 by (simp add: matchmaking_empty)
    have "\<forall>c. peers st ?sid = Some c \<longrightarrow> peers st' ?sid \<noteq> Some c \<and> peers st' c \<noteq> Some ?sid"
    proof (intro allI impI)
      fix c assume c: "peers st ?sid = Some c"
      from leave_pairing_peers [OF inv c, where 'a = 'p]
      show "peers st' ?sid \<noteq> Some c \<and> peers st' c \<noteq> Some ?sid" by (simp add: e)
    qed
    moreover have "waitingQueue st = [] \<and> waitingQueue st' = [usr] \<and> peers st' ?sid = None"
      using 1 un1 by (simp add: e)
    ultimately show ?thesis by blast
  next
    case (2 h)
    with qd have th: "truthy (socketId h)" and ph: "peers st (socketId h) = None" by simp_all
    from 2 q1 have "waitingQueue ?st1 = h # []" by simp
    from matchmaking_head [OF this th, of usr, where 'a = 'p]
    have e: "st' = ?st1\<lparr>waitingQueue := [],
                 peers := ((peers ?st1)(?sid \<mapsto> socketId h))(socketId h \<mapsto> ?sid)\<rparr>"
      unfolding st' by simp
    have p1: "peers st' ?sid = Some (socketId h)" and p2: "peers st' (socketId h) = Some ?sid"
      by (simp_all add: e)
    have "\<forall>c. peers st ?sid = Some c \<longrightarrow> peers st' ?sid \<noteq> Some c \<and> peers st' c \<noteq> Some ?sid"
    proof (intro allI impI)
      fix c assume c: "peers st ?sid = Some c"
      from sym c have cs: "peers st c = Some ?sid" by (rule symmetricD)
      from cs ph have hc: "socketId h \<noteq> c" by auto
      from c ph have hs: "socketId h \<noteq> ?sid" by auto
      from leave_pairing_peers [OF inv c, where 'a = 'p] hc hs
      show "peers st' ?sid \<noteq> Some c \<and> peers st' c \<noteq> Some ?sid" by (simp add: e)
    qed
    moreover have "\<exists>h rest. waitingQueue st = h # rest \<and> waitingQueue st' = rest
              \<and> peers st' ?sid = Some (socketId h) \<and> peers st' (socketId h) = Some ?sid"
      using 2 p1 p2 by (simp add: e)
    ultimately show ?thesis by blast
  qed
qed

section \<open>Runs produced by the gateway are admissible\<close>

text \<open>
  The condition on a connecting id in \<open>enabled\<close> is about the server's state. It follows
  from what the gateway does: the server holds only ids of open connections, because
  \<^verbatim>\<open>cleanupUser\<close> removes every trace of an id when its socket disconnects.
\<close>

lemma held_userInfo [simp]: "held (st\<lparr>userInfo := x\<rparr>) = held st"
  by (simp add: held_def)

lemma held_matchmaking: "held (fst (matchmaking usr st)) \<subseteq> insert (socketId usr) (held st)"
  by (auto simp: held_def matchmaking_def split: list.splits if_splits)

lemma held_leave_pairing: "held (fst (leave_pairing sid st)) \<subseteq> held st"
  by (auto simp: held_def leave_pairing_def split: option.splits if_splits)

lemma held_filter: "held (st\<lparr>waitingQueue := filter P (waitingQueue st)\<rparr>) \<subseteq> held st"
  by (auto simp: held_def)

lemma held_connection: "held (fst (connection sid now ua st)) \<subseteq> insert sid (held st)"
proof -
  let ?usr = "\<lparr>socketId = sid, joinedAt = now, userAgent = ua\<rparr>"
  let ?st1 = "st\<lparr>userInfo := (userInfo st)(sid \<mapsto> ?usr)\<rparr>"
  have "held (fst (matchmaking ?usr ?st1 :: server \<times> 'a emission list)) \<subseteq> insert (socketId ?usr) (held ?st1)"
    by (rule held_matchmaking)
  then show ?thesis unfolding connection_matchmaking by simp
qed

lemma held_find_next:
  "held (fst (find_next usr st :: server \<times> 'p emission list)) \<subseteq> insert (socketId usr) (held st)"
proof -
  let ?st1 = "fst (leave_pairing (socketId usr) st :: server \<times> 'p emission list)"
  have "held (fst (matchmaking usr ?st1 :: server \<times> 'p emission list)) \<subseteq> insert (socketId usr) (held ?st1)"
    by (rule held_matchmaking)
  also have "\<dots> \<subseteq> insert (socketId usr) (held st)"
    using held_leave_pairing [of "socketId usr" st, where 'a = 'p] by auto
  finally show ?thesis unfolding find_next_state .
qed

lemma held_cleanupUser:
  assumes "server_inv st"
  shows "held (cleanupUser sid st) \<subseteq> held st - {sid}"
proof -
  let ?st1 = "fst (leave_pairing sid st :: server \<times> unit emission list)"
  have u: "peers ?st1 sid = None" using assms by (rule leave_pairing_unpaired)
  have "held (cleanupUser sid st) \<subseteq> held ?st1 - {sid}"
    unfolding cleanupUser_leave Let_def using u by (auto simp: held_def)
  also have "\<dots> \<subseteq> held st - {sid}"
    using held_leave_pairing [of sid st, where 'a = unit] by auto
  finally show ?thesis .
qed

lemma gateway_ok_admissible:
  assumes "server_inv st" and "held st \<subseteq> opn" and "\<forall>s \<in> opn. truthy s" and "gateway_ok opn es"
  shows "admissible st es"
  using assms
proof (induction es arbitrary: st opn)
  case Nil
  then show ?case by simp
next
  case (Cons e es)
  show ?case
  proof (cases e)
    case (Connect sid now ua)
    with Cons.prems have t: "truthy sid" and f: "sid \<notin> opn" and g: "gateway_ok (insert sid opn) es"
      by simp_all
    from f Cons.prems(2) have nh: "sid \<notin> held st" by auto
    then have en: "peers st sid = None" "\<not> queued st sid"
      by (auto simp: held_def queued_def)
    have i: "server_inv (fst (connection sid now ua st :: server \<times> 'a emission list))"
      using Cons.prems(1) t en(1) by (rule inv_connection)
    have h: "held (fst (connection sid now ua st :: server \<times> 'a emission list)) \<subseteq> insert sid opn"
      using held_connection [of sid now ua st, where 'a = 'a] Cons.prems(2) by auto
    have tr: "\<forall>s \<in> insert sid opn. truthy s" using t Cons.prems(3) by simp
    from Cons.IH [OF i h tr g] t en Connect show ?thesis by simp
  next
    case (Signal sockets stack sid payload)
    with Cons.prems have o: "sid \<in> opn" and g: "gateway_ok opn es" by simp_all
    from o Cons.prems(3) have t: "truthy sid" by simp
    from Cons.IH [OF Cons.prems(1,2,3) g] t Signal show ?thesis by (simp add: signal_state)
  next
    case (FindNext usr)
    with Cons.prems have o: "socketId usr \<in> opn" and g: "gateway_ok opn es" by simp_all
    from o Cons.prems(3) have t: "truthy (socketId usr)" by simp
    have i: "server_inv (fst (find_next usr st :: server \<times> 'a emission list))"
      using Cons.prems(1) t by (rule inv_find_next)
    have h: "held (fst (find_next usr st :: server \<times> 'a emission list)) \<subseteq> opn"
      using held_find_next [of usr st, where 'p = 'a] Cons.prems(2) o by auto
    from Cons.IH [OF i h Cons.prems(3) g] t FindNext show ?thesis by simp
  next
    case (Disconnect sockets sid)
    with Cons.prems have o: "sid \<in> opn" and g: "gateway_ok (opn - {sid}) es" by simp_all
    from o Cons.prems(3) have t: "truthy sid" by simp
    have i: "server_inv (cleanupUser sid st)" using Cons.prems(1) by (rule inv_cleanupUser)
    have h: "held (cleanupUser sid st) \<subseteq> opn - {sid}"
      using held_cleanupUser [OF Cons.prems(1), of sid] Cons.prems(2) by auto
    have tr: "\<forall>s \<in> opn - {sid}. truthy s" using Cons.prems(3) by simp
    from Cons.IH [OF i h tr g] t Disconnect show ?thesis by (simp add: disconnect_state)
  next
    case (Sweep now)
    with Cons.prems have g: "gateway_ok opn es" by simp
    have i: "server_inv (fst (expire now st :: server \<times> 'a emission list))"
      using Cons.prems(1) by (rule inv_expire)
    have h: "held (fst (expire now st :: server \<times> 'a emission list)) \<subseteq> opn"
      using held_filter [where st = st and P = "\<lambda>u. \<not> isExpired now u"] Cons.prems(2) by (auto simp: expire_def)
    from Cons.IH [OF i h Cons.prems(3) g] Sweep show ?thesis by simp
  qed
qed

lemma gateway_runs_admissible: "gateway_ok {} es \<Longrightarrow> admissible initial es"
  by (rule gateway_ok_admissible [OF inv_initial]) (simp_all add: held_def initial_def)

section \<open>Evaluation of the handlers on the example runs\<close>

lemmas run_defs = initial_def connection_def find_next_def findMatch_def disconnect_def
  cleanupUser_def signal_def expire_def isExpired_def timeout_def truthy_def queued_def get_type_def
  logConnection_def JSON_stringify_def relay_details_def Let_def
  userA_def run_waiting_def run_paired_def run_requeued_def


section \<open>Properties of the single operations\<close>

text \<open>
  C1. When the queue is not empty, a connecting socket is paired with the head of the
  queue: the head is removed from the queue, the pair table receives both directions of
  the pairing, the head is sent \<^verbatim>\<open>match-found\<close> with the new id and
  \<^verbatim>\<open>isInitiator: true\<close>, and the new socket is sent \<^verbatim>\<open>match-found\<close> with the head's id
  and \<^verbatim>\<open>isInitiator: false\<close>. So the party that waited is the initiator. The handler has
  also stored the metadata of the new socket. The head's id has to be truthy, as every
  socket id is.
\<close>

theorem connect_pairs_with_head:
  assumes "waitingQueue st = partner # rest" and "truthy (socketId partner)"
  shows "(connection sid now ua st :: server \<times> 'p emission list) =
           (st\<lparr>userInfo := (userInfo st)(sid \<mapsto> \<lparr>socketId = sid, joinedAt = now, userAgent = ua\<rparr>),
               waitingQueue := rest,
               peers := ((peers st)(sid \<mapsto> socketId partner))(socketId partner \<mapsto> sid)\<rparr>,
            [(socketId partner, MatchFound sid True), (sid, MatchFound (socketId partner) False)])
         \<and> peers (fst (connection sid now ua st :: server \<times> 'p emission list)) sid
             = Some (socketId partner)
         \<and> peers (fst (connection sid now ua st :: server \<times> 'p emission list)) (socketId partner)
             = Some sid"
  using assms by (simp add: connection_def findMatch_def Let_def)

theorem connect_pairs_with_head_witness:
  "connection ''B'' 1 None (exec initial run_waiting) =
     (\<lparr>waitingQueue = [],
       peers = [''B'' \<mapsto> ''A'', ''A'' \<mapsto> ''B''],
       userInfo = [''A'' \<mapsto> userA, ''B'' \<mapsto> \<lparr>socketId = ''B'', joinedAt = 1, userAgent = None\<rparr>]\<rparr>,
      [(''A'', MatchFound ''B'' True), (''B'', MatchFound ''A'' False) :: unit emission])"
proof -
  have q: "waitingQueue (exec initial run_waiting) = userA # []" by (simp add: run_defs)
  have t: "truthy (socketId userA)" by (simp add: run_defs)
  from connect_pairs_with_head [OF q t, of "''B''" 1 None]
  show ?thesis by (simp add: run_defs)
qed


text \<open>
  C5. A signal from a socket that has no recorded partner, or whose recorded partner is
  not among the open sockets, is answered with an \<^verbatim>\<open>error\<close> message to the sender and
  nothing else: nothing is relayed and the state is unchanged.
\<close>

theorem signal_without_live_peer:
  assumes "\<not> (\<exists>p. peers st sid = Some p \<and> truthy p \<and> p \<in> sockets)"
  shows "signal sockets stack sid payload st = (st, [(sid, ErrorMsg ''No active peer connection'')])"
  using assms by (auto simp: signal_def Let_def split: option.splits)

theorem signal_without_live_peer_witness:
  "signal {''A''} 1000 ''A'' (JSON (JObject []) :: unit js_value) (exec initial run_waiting) =
     (exec initial run_waiting, [(''A'', ErrorMsg ''No active peer connection'')])
   \<and> signal {''B''} 1000 ''B'' (JSON (JObject []) :: unit js_value) (exec initial run_paired) =
     (exec initial run_paired, [(''B'', ErrorMsg ''No active peer connection'')])"
proof -
  have 1: "\<not> (\<exists>p. peers (exec initial run_waiting) ''A'' = Some p \<and> truthy p \<and> p \<in> {''A''})"
    by (simp add: run_defs)
  have 2: "\<not> (\<exists>p. peers (exec initial run_paired) ''B'' = Some p \<and> truthy p \<and> p \<in> {''B''})"
    by (simp add: run_defs)
  from signal_without_live_peer [OF 1] signal_without_live_peer [OF 2] show ?thesis by blast
qed


text \<open>
  What the signal handler relays. With a live partner (recorded, truthy, among the open
  sockets), the payload goes to the partner unchanged provided the log line before the
  emit does not throw: \<^verbatim>\<open>payload.type\<close> can be read and the details fit the stack.
  Whatever the payload, a \<^verbatim>\<open>signal\<close> message is only ever emitted to a live partner and
  only with the payload received.
\<close>

lemma nesting_nested: "nesting (nested n) = Suc n"
  by (induction n) simp_all

lemma signal_relays_when_logged:
  assumes "peers st sid = Some p" and "truthy p" and "p \<in> sockets"
    and "get_type payload = Inr ty"
    and "logConnection stack (Some (relay_details p ty)) = Inr ()"
  shows "signal sockets stack sid payload st = (st, [(p, SignalMsg payload)])"
  using assms by (simp add: signal_def Let_def)

lemma signal_only_to_live_peer:
  assumes "(t, SignalMsg x) \<in> set (snd (signal sockets stack sid payload st))"
  shows "peers st sid = Some t \<and> truthy t \<and> t \<in> sockets \<and> x = payload"
  using assms by (auto simp: signal_def Let_def split: option.splits if_splits sum.splits)

lemma signal_lost_in_log_line:
  assumes "peers st sid = Some p" and "truthy p" and "p \<in> sockets"
  shows "signal sockets stack sid JSUndefined st = (st, [])"
    and "signal sockets stack sid (JSON JNull) st = (st, [])"
    and "signal sockets stack sid (deep_payload stack) st = (st, [])"
  using assms
  by (simp_all add: signal_def get_type_def logConnection_def JSON_stringify_def relay_details_def
      deep_payload_def nesting_nested Let_def)

text \<open>
  C6. The payload is not always relayed to a live partner, because the log line before
  the emit inspects it. B is paired with A and both sockets are open. If B sends
  \<^verbatim>\<open>signal\<close> with no argument or with \<^verbatim>\<open>null\<close>, reading \<^verbatim>\<open>payload.type\<close> throws; if B
  sends an object whose \<^verbatim>\<open>type\<close> is nested deeper than the stack has room for,
  \<^verbatim>\<open>JSON.stringify\<close> throws. Each time the \<^verbatim>\<open>catch\<close> block logs and nothing is emitted:
  A receives no \<^verbatim>\<open>signal\<close>, and B no \<^verbatim>\<open>error\<close>.
\<close>

theorem signal_dropped_by_log_line:
  "peers (exec initial run_paired) ''B'' = Some ''A'' \<and> truthy ''A'' \<and> ''A'' \<in> {''A'', ''B''}
   \<and> signal {''A'', ''B''} stack ''B'' (JSUndefined :: unit js_value) (exec initial run_paired)
       = (exec initial run_paired, [])
   \<and> signal {''A'', ''B''} stack ''B'' (JSON JNull :: unit js_value) (exec initial run_paired)
       = (exec initial run_paired, [])
   \<and> signal {''A'', ''B''} stack ''B'' (deep_payload stack :: unit js_value) (exec initial run_paired)
       = (exec initial run_paired, [])"
proof -
  have live: "peers (exec initial run_paired) ''B'' = Some ''A''" "truthy ''A''" "''A'' \<in> {''A'', ''B''}"
    by (simp_all add: run_defs)
  from live signal_lost_in_log_line [OF live, of stack]
  show ?thesis by simp
qed

theorem signal_dropped_by_log_line_witness:
  "signal {''A'', ''B''} 2 ''B''
      (JSON (JObject [(''type'', JArray [JArray [JArray []]])]) :: unit js_value)
      (exec initial run_paired)
     = (exec initial run_paired, [])
   \<and> signal {''A'', ''B''} 2 ''B''
      (JSON (JObject [(''type'', JString ''offer'')]) :: unit js_value)
      (exec initial run_paired)
     = (exec initial run_paired,
        [(''A'', SignalMsg (JSON (JObject [(''type'', JString ''offer'')])))])"
proof -
  have d: "(deep_payload 2 :: unit js_value) = JSON (JObject [(''type'', JArray [JArray [JArray []]])])"
    by (simp add: deep_payload_def numeral_2_eq_2)
  have r: "signal {''A'', ''B''} 2 ''B''
      (JSON (JObject [(''type'', JString ''offer'')]) :: unit js_value)
      (exec initial run_paired)
     = (exec initial run_paired,
        [(''A'', SignalMsg (JSON (JObject [(''type'', JString ''offer'')])))])"
    by (simp add: run_defs)
  from signal_dropped_by_log_line [of 2] d r show ?thesis by simp
qed

text \<open>
  C7 (as amended). When the queue is empty, a connecting socket's user object (id,
  current date, user agent) is appended to the queue, \<^verbatim>\<open>waiting-for-peer\<close> is emitted to
  the socket, and the same user object is stored as the socket's metadata in
  \<^verbatim>\<open>userInfo\<close>. Nothing else changes: the pair table is as before and nothing else is
  emitted.
\<close>

theorem connect_enqueues_when_empty:
  assumes "waitingQueue st = []"
  shows "connection sid now ua st =
           (st\<lparr>userInfo := (userInfo st)(sid \<mapsto> \<lparr>socketId = sid, joinedAt = now, userAgent = ua\<rparr>),
               waitingQueue := waitingQueue st @ [\<lparr>socketId = sid, joinedAt = now, userAgent = ua\<rparr>]\<rparr>,
            [(sid, WaitingForPeer)])"
  using assms by (simp add: connection_def findMatch_def Let_def)

theorem connect_enqueues_when_empty_witness:
  "connection ''A'' 0 None initial =
     (\<lparr>waitingQueue = [userA], peers = Map.empty, userInfo = [''A'' \<mapsto> userA]\<rparr>,
      [(''A'', WaitingForPeer) :: unit emission])"
proof -
  have "waitingQueue initial = []" by (simp add: initial_def)
  from connect_enqueues_when_empty [OF this, of "''A''" 0 None]
  show ?thesis by (simp add: initial_def userA_def)
qed

text \<open>
  The claim as first stated allows no effect besides the queue entry and the message.
  From the initial state, the connection of A also changes the metadata map.
\<close>

theorem connect_metadata_counterexample:
  "waitingQueue initial = []
   \<and> userInfo initial ''A'' = None
   \<and> userInfo (fst (connection ''A'' 0 None initial :: server \<times> unit emission list)) ''A'' = Some userA
   \<and> fst (connection ''A'' 0 None initial :: server \<times> unit emission list)
       \<noteq> initial\<lparr>waitingQueue := waitingQueue initial @ [userA]\<rparr>"
proof -
  have 1: "userInfo (fst (connection ''A'' 0 None initial :: server \<times> unit emission list)) ''A'' = Some userA"
    by (simp add: run_defs)
  have 2: "userInfo (initial\<lparr>waitingQueue := waitingQueue initial @ [userA]\<rparr>) ''A'' = None"
    by (simp add: initial_def)
  from 1 2 have "fst (connection ''A'' 0 None initial :: server \<times> unit emission list)
       \<noteq> initial\<lparr>waitingQueue := waitingQueue initial @ [userA]\<rparr>" by auto
  with 1 show ?thesis by (simp add: initial_def)
qed

text \<open>
  C8. Disconnecting twice is the same as disconnecting once, from any state whatsoever:
  \<^verbatim>\<open>cleanupUser\<close> is idempotent, and a second run of the disconnect handler leaves the
  whole state (queue, pair table, metadata) as the first run left it and emits nothing.
\<close>

theorem disconnect_idempotent:
  "cleanupUser sid (cleanupUser sid st) = cleanupUser sid st
   \<and> disconnect sockets' sid (fst (disconnect sockets sid st :: server \<times> 'p emission list))
       = (fst (disconnect sockets sid st :: server \<times> 'p emission list), ([] :: 'p emission list))"
  by (auto simp: disconnect_def cleanupUser_def Let_def split: option.splits)

theorem disconnect_idempotent_witness:
  "fst (disconnect {''B''} ''A'' (exec initial run_paired) :: server \<times> unit emission list)
     = \<lparr>waitingQueue = [], peers = Map.empty,
        userInfo = [''B'' \<mapsto> \<lparr>socketId = ''B'', joinedAt = 1, userAgent = None\<rparr>]\<rparr>
   \<and> disconnect {''B''} ''A'' (fst (disconnect {''B''} ''A'' (exec initial run_paired) :: server \<times> unit emission list))
     = (fst (disconnect {''B''} ''A'' (exec initial run_paired) :: server \<times> unit emission list), ([] :: unit emission list))"
proof -
  have "fst (disconnect {''B''} ''A'' (exec initial run_paired) :: server \<times> unit emission list)
     = \<lparr>waitingQueue = [], peers = Map.empty,
        userInfo = [''B'' \<mapsto> \<lparr>socketId = ''B'', joinedAt = 1, userAgent = None\<rparr>]\<rparr>"
    by (simp add: run_defs fun_eq_iff)
  with disconnect_idempotent [of "''A''" "exec initial run_paired" "{''B''}" "{''B''}", where 'p = unit]
  show ?thesis by blast
qed


text \<open>
  C9. The sweep keeps, in order, the queue entries whose age \<open>now - joinedAt\<close> is at most
  five minutes (300000 ms) and removes exactly the entries that are older; it emits
  nothing and leaves the pair table (and the metadata) as they were. When the sweep runs
  is decided by the timer, which is outside this model: a run may contain a sweep at any
  point.
\<close>

theorem expiry_sweep:
  "(expire now st :: server \<times> 'p emission list) =
     (st\<lparr>waitingQueue := filter (\<lambda>u. now - joinedAt u \<le> 5 * 60 * 1000) (waitingQueue st)\<rparr>, [])
   \<and> peers (fst (expire now st :: server \<times> 'p emission list)) = peers st
   \<and> set (waitingQueue st) - set (waitingQueue (fst (expire now st :: server \<times> 'p emission list)))
       = {u \<in> set (waitingQueue st). now - joinedAt u > 5 * 60 * 1000}
   \<and> sweep_interval = 60 * 1000"
  by (auto simp: expire_def isExpired_def timeout_def sweep_interval_def not_less)

theorem expiry_sweep_witness:
  "expire 300001 (exec initial run_waiting) = (initial\<lparr>userInfo := [''A'' \<mapsto> userA]\<rparr>, ([] :: unit emission list))
   \<and> expire 300000 (exec initial run_waiting) = (exec initial run_waiting, ([] :: unit emission list))"
  using expiry_sweep [of 300001 "exec initial run_waiting", where 'p = unit]
    expiry_sweep [of 300000 "exec initial run_waiting", where 'p = unit]
  by (simp add: run_defs)


text \<open>
  C10. The find-next handler does not take the caller out of the queue before it calls
  \<^verbatim>\<open>findMatch\<close>. A caller that is unpaired and at the head of the queue is therefore
  matched with itself: the pair table maps its id to itself and it is sent both
  \<^verbatim>\<open>match-found\<close> messages, each naming itself as peer, one as initiator and one
  not. The witness reaches such a state by a single connection.
\<close>

theorem find_next_pairs_with_itself:
  assumes "waitingQueue st = h # rest" and "socketId h = socketId usr"
    and "truthy (socketId usr)" and "peers st (socketId usr) = None"
  shows "find_next usr st =
           (st\<lparr>waitingQueue := rest, peers := (peers st)(socketId usr \<mapsto> socketId usr)\<rparr>,
            [(socketId usr, MatchFound (socketId usr) True),
             (socketId usr, MatchFound (socketId usr) False)])"
  using assms by (simp add: find_next_def findMatch_def Let_def)

theorem find_next_pairs_with_itself_witness:
  "admissible initial run_waiting
   \<and> find_next userA (exec initial run_waiting) =
       (\<lparr>waitingQueue = [], peers = [''A'' \<mapsto> ''A''], userInfo = [''A'' \<mapsto> userA]\<rparr>,
        [(''A'', MatchFound ''A'' True), (''A'', MatchFound ''A'' False) :: unit emission])"
proof -
  have q: "waitingQueue (exec initial run_waiting) = userA # []" by (simp add: run_defs)
  have s: "socketId userA = socketId userA" by simp
  have t: "truthy (socketId userA)" by (simp add: run_defs)
  have p: "peers (exec initial run_waiting) (socketId userA) = None" by (simp add: run_defs)
  have a: "admissible initial run_waiting" by (simp add: run_defs)
  from a find_next_pairs_with_itself [OF q s t p]
  show ?thesis by (simp add: run_defs)
qed

section \<open>Properties of runs\<close>

text \<open>
  C4. In every state reached by a run from the initial state, the pair table is
  symmetric: an entry from \<open>a\<close> to \<open>b\<close> comes with the entry from \<open>b\<close> to \<open>a\<close>. Every
  prefix of a run is a run, so this holds after each single operation. The runs are the
  admissible ones; every run the gateway can produce is among them.
\<close>

theorem pair_table_symmetric:
  assumes "admissible initial es" and "peers (exec initial es) a = Some b"
  shows "peers (exec initial es) b = Some a"
  using inv_reachable [OF assms(1)] assms(2) unfolding server_inv_def symmetric_def by blast

theorem pair_table_symmetric_witness:
  "admissible initial run_paired
   \<and> peers (exec initial run_paired) ''B'' = Some ''A''
   \<and> peers (exec initial run_paired) ''A'' = Some ''B''"
proof -
  have a: "admissible initial run_paired" by (simp add: run_defs)
  have p: "peers (exec initial run_paired) ''B'' = Some ''A''" by (simp add: run_defs)
  from a p pair_table_symmetric [OF a p] show ?thesis by simp
qed

text \<open>
  C2. In every state reached by an admissible run from the initial state, no id is both
  in the waiting queue and a key of the pair table.
\<close>

theorem queue_pair_exclusive:
  assumes "admissible initial es"
  shows "\<not> (queued (exec initial es) sid \<and> sid \<in> dom (peers (exec initial es)))"
  using inv_reachable [OF assms(1)] unfolding server_inv_def queued_def by auto

theorem queue_pair_exclusive_witness:
  "admissible initial run_requeued
   \<and> queued (exec initial run_requeued) ''A''
   \<and> \<not> (queued (exec initial run_requeued) ''A'' \<and> ''A'' \<in> dom (peers (exec initial run_requeued)))"
proof -
  have a: "admissible initial run_requeued" by (simp add: run_defs)
  have q: "queued (exec initial run_requeued) ''A''" by (simp add: run_defs)
  from a q queue_pair_exclusive [OF a, of "''A''"] show ?thesis by simp
qed

text \<open>
  What find-next guarantees in every state reached by an admissible run, for a caller
  with a truthy id: it is the specification's step 1 (notify the partner, remove both
  directions of the pairing) followed by what the connection handler does for the
  caller's own user object, with the metadata map as it was. Afterwards the old pairing
  is gone in both directions, and the caller either has a pair-table entry, in both
  directions, for the entry that was at the head of the queue, or is unpaired and its
  user object is the only queue entry. Nothing here says that the head of the queue is
  another connection.
\<close>

lemma find_next_in_reachable_states:
  fixes es :: "'q event list" and usr :: user
  assumes "admissible initial es" and "truthy (socketId usr)"
    and "st = exec initial es"
    and "st' = fst (find_next usr st :: server \<times> 'p emission list)"
  shows "(find_next usr st :: server \<times> 'p emission list) =
           (let (st1, out1) = spec_leave_pairing (socketId usr) st;
                (st2, out2) = connection (socketId usr) (joinedAt usr) (userAgent usr) st1
            in (st2\<lparr>userInfo := userInfo st\<rparr>, out1 @ out2))
       \<and> (\<forall>c. peers st (socketId usr) = Some c \<longrightarrow>
              peers st' (socketId usr) \<noteq> Some c \<and> peers st' c \<noteq> Some (socketId usr))
       \<and> ((\<exists>h rest. waitingQueue st = h # rest \<and> waitingQueue st' = rest
              \<and> peers st' (socketId usr) = Some (socketId h)
              \<and> peers st' (socketId h) = Some (socketId usr))
          \<or> (waitingQueue st = [] \<and> waitingQueue st' = [usr] \<and> peers st' (socketId usr) = None))"
proof -
  from assms(1,3) have inv: "server_inv st" by (simp add: inv_reachable)
  have "(find_next usr st :: server \<times> 'p emission list) =
           (let (st1, out1) = spec_leave_pairing (socketId usr) st;
                (st2, out2) = connection (socketId usr) (joinedAt usr) (userAgent usr) st1
            in (st2\<lparr>userInfo := userInfo st\<rparr>, out1 @ out2))"
    unfolding spec_leave_pairing_inv [OF inv] by (rule find_next_as_connection)
  with find_next_outcome [OF inv assms(2), where 'p = 'p] assms(4) show ?thesis by simp
qed

text \<open>
  When the caller is not in the queue, the entry at the head is another connection, and
  find-next ends as intended: paired with another connection or alone in the queue.
\<close>

lemma find_next_of_unqueued_caller:
  fixes es :: "'q event list" and usr :: user
  assumes "admissible initial es" and "truthy (socketId usr)"
    and "st = exec initial es"
    and "\<not> queued st (socketId usr)"
    and "st' = fst (find_next usr st :: server \<times> 'p emission list)"
  shows "(\<exists>h rest. waitingQueue st = h # rest \<and> waitingQueue st' = rest
            \<and> socketId h \<noteq> socketId usr
            \<and> peers st' (socketId usr) = Some (socketId h)
            \<and> peers st' (socketId h) = Some (socketId usr))
       \<or> (waitingQueue st = [] \<and> waitingQueue st' = [usr] \<and> peers st' (socketId usr) = None)"
proof -
  from assms(1,3) have inv: "server_inv st" by (simp add: inv_reachable)
  from find_next_outcome [OF inv assms(2), where 'p = 'p] assms(5)
  have "(\<exists>h rest. waitingQueue st = h # rest \<and> waitingQueue st' = rest
              \<and> peers st' (socketId usr) = Some (socketId h)
              \<and> peers st' (socketId h) = Some (socketId usr))
          \<or> (waitingQueue st = [] \<and> waitingQueue st' = [usr] \<and> peers st' (socketId usr) = None)"
    by simp
  then show ?thesis
  proof
    assume "\<exists>h rest. waitingQueue st = h # rest \<and> waitingQueue st' = rest
              \<and> peers st' (socketId usr) = Some (socketId h)
              \<and> peers st' (socketId h) = Some (socketId usr)"
    then obtain h rest where q: "waitingQueue st = h # rest" and r: "waitingQueue st' = rest"
      and p1: "peers st' (socketId usr) = Some (socketId h)"
      and p2: "peers st' (socketId h) = Some (socketId usr)"
      by blast
    from q have "queued st (socketId h)" by (simp add: queued_def)
    with assms(4) have "socketId h \<noteq> socketId usr" by auto
    with q r p1 p2 show ?thesis by blast
  next
    assume "waitingQueue st = [] \<and> waitingQueue st' = [usr] \<and> peers st' (socketId usr) = None"
    then show ?thesis by blast
  qed
qed

text \<open>
  C3. A caller that is itself waiting is the case the handler misses: \<^verbatim>\<open>findMatch\<close>
  ignores its argument and the caller is not taken out of the queue first (the first
  version of the server and \<^verbatim>\<open>cleanupUser\<close> both remove it). A connects and waits, then
  asks for the next peer. A had no partner, so nothing is sent to a partner; A is popped
  from the queue as its own match. Afterwards the queue is empty and the only entry of
  the pair table maps A to A: A is neither paired with another connection nor waiting in
  the queue, and a later connection cannot be matched with it.
\<close>

theorem find_next_alone_ends_self_paired:
  "admissible initial run_waiting
   \<and> queued (exec initial run_waiting) ''A''
   \<and> peers (exec initial run_waiting) ''A'' = None
   \<and> fst (find_next userA (exec initial run_waiting) :: server \<times> unit emission list)
       = \<lparr>waitingQueue = [], peers = [''A'' \<mapsto> ''A''], userInfo = [''A'' \<mapsto> userA]\<rparr>
   \<and> snd (find_next userA (exec initial run_waiting) :: server \<times> unit emission list)
       = [(''A'', MatchFound ''A'' True), (''A'', MatchFound ''A'' False)]"
  by (simp add: run_defs)

theorem find_next_alone_ends_self_paired_witness:
  "\<not> queued (fst (find_next userA (exec initial run_waiting) :: server \<times> unit emission list)) ''A''
   \<and> peers (fst (find_next userA (exec initial run_waiting) :: server \<times> unit emission list)) ''A''
       = Some ''A''
   \<and> dom (peers (fst (find_next userA (exec initial run_waiting) :: server \<times> unit emission list)))
       = {''A''}"
proof -
  from find_next_alone_ends_self_paired
  have "fst (find_next userA (exec initial run_waiting) :: server \<times> unit emission list)
       = \<lparr>waitingQueue = [], peers = [''A'' \<mapsto> ''A''], userInfo = [''A'' \<mapsto> userA]\<rparr>"
    by simp
  then show ?thesis by (simp add: queued_def)
qed

section \<open>The first version of the server: the same properties\<close>

text \<open>
  The earlier server keeps the same invariant along its runs, pairs a connecting socket
  with the head of the queue in the same way, and its \<^verbatim>\<open>handleDisconnect\<close> is idempotent
  on the states it can reach. It differs where it lacks a message: a connection to an
  empty queue and a signal without partner emit nothing. Because its find-next handler
  removes the caller from the queue first, it never pairs a socket with itself.
\<close>

lemma queue_ts_cases:
  assumes "length (waitingQueue_ts st) \<le> 1"
  obtains "waitingQueue_ts st = []" | h where "waitingQueue_ts st = [h]"
  using assms by (cases "waitingQueue_ts st") auto

lemma handleDisconnect_paired:
  assumes "inv_ts st" "peers_ts st sid = Some c"
  shows "handleDisconnect sid st =
           (st\<lparr>peers_ts := ((peers_ts st)(c := None))(sid := None)\<rparr>, [(c, PeerDisconnected)])"
proof -
  from assms have "truthy c" unfolding inv_ts_def all_truthy_def by blast
  with assms(2) show ?thesis by (simp add: handleDisconnect_def Let_def)
qed

lemma handleDisconnect_unpaired:
  assumes "peers_ts st sid = None"
  shows "handleDisconnect sid st = (st\<lparr>waitingQueue_ts := remove1 sid (waitingQueue_ts st)\<rparr>, [])"
  using assms by (simp add: handleDisconnect_def Let_def)

lemma inv_handleDisconnect:
  fixes st :: server_ts and sid :: string
  defines "st' \<equiv> fst (handleDisconnect sid st :: server_ts \<times> 'p emission list)"
  assumes "inv_ts st"
  shows "inv_ts st' \<and> peers_ts st' sid = None \<and> sid \<notin> set (waitingQueue_ts st')"
proof (cases "peers_ts st sid")
  case None
  from assms have len: "length (waitingQueue_ts st) \<le> 1" by (simp add: inv_ts_def)
  show ?thesis
  proof (cases rule: queue_ts_cases [OF len])
    case 1
    with None assms show ?thesis by (simp add: handleDisconnect_unpaired inv_ts_def)
  next
    case (2 h)
    with None assms show ?thesis by (simp add: handleDisconnect_unpaired inv_ts_def)
  qed
next
  case (Some c)
  from assms have s: "symmetric (peers_ts st)" and t: "all_truthy (peers_ts st)"
    and q: "\<forall>s \<in> set (waitingQueue_ts st). truthy s \<and> peers_ts st s = None"
    and l: "length (waitingQueue_ts st) \<le> 1"
    and i: "inv_ts st"
    by (simp_all add: inv_ts_def)
  from q Some have nq: "sid \<notin> set (waitingQueue_ts st)" by auto
  show ?thesis
    unfolding st'_def handleDisconnect_paired [OF i Some] inv_ts_def
    using symmetric_unpair [OF s Some] all_truthy_unpair [OF t] q l nq by simp
qed

lemma inv_match_ts:
  assumes "inv_ts st" "truthy sid" "peers_ts st sid = None" "sid \<notin> set (waitingQueue_ts st)"
  shows "inv_ts (fst (connection_ts sid st))"
proof -
  from assms(1) have s: "symmetric (peers_ts st)" and t: "all_truthy (peers_ts st)"
    and q: "\<forall>s \<in> set (waitingQueue_ts st). truthy s \<and> peers_ts st s = None"
    and l: "length (waitingQueue_ts st) \<le> 1"
    by (simp_all add: inv_ts_def)
  show ?thesis
  proof (cases rule: queue_ts_cases [OF l])
    case 1
    with s t assms(2,3) show ?thesis by (simp add: connection_ts_def inv_ts_def)
  next
    case (2 h)
    with q have th: "truthy h" and ph: "peers_ts st h = None" by simp_all
    have e: "fst (connection_ts sid st) =
        st\<lparr>waitingQueue_ts := [], peers_ts := ((peers_ts st)(sid \<mapsto> h))(h \<mapsto> sid)\<rparr>"
      using 2 by (simp add: connection_ts_def)
    show ?thesis
      unfolding e inv_ts_def
      using symmetric_pair [OF s assms(3) ph] all_truthy_pair [OF t assms(2) th] by simp
  qed
qed

lemma find_next_ts_state:
  "fst (find_next_ts sid st :: server_ts \<times> 'p emission list) =
   fst (connection_ts sid (fst (handleDisconnect sid st :: server_ts \<times> 'p emission list))
          :: server_ts \<times> 'p emission list)"
  by (simp add: find_next_ts_def connection_ts_def Let_def split: prod.splits list.splits)

lemma inv_step_ts:
  assumes "inv_ts st" "enabled_ts st e"
  shows "inv_ts (step_ts e st)"
proof (cases e)
  case (Connect_ts sid)
  with assms show ?thesis by (simp add: inv_match_ts)
next
  case (FindNext_ts sid)
  from inv_handleDisconnect [OF assms(1), of sid, where 'p = unit] FindNext_ts assms(2)
  show ?thesis by (simp add: find_next_ts_state inv_match_ts)
next
  case (Disconnect_ts sid)
  with inv_handleDisconnect [OF assms(1), of sid, where 'p = unit]
  show ?thesis by (simp add: disconnect_ts_def)
qed

lemma inv_exec_ts:
  assumes "inv_ts st" "admissible_ts st es"
  shows "inv_ts (exec_ts st es)"
  using assms
proof (induction es arbitrary: st)
  case Nil
  then show ?case by simp
next
  case (Cons e es)
  from Cons.prems have "inv_ts (step_ts e st)" by (simp add: inv_step_ts)
  moreover from Cons.prems have "admissible_ts (step_ts e st) es" by simp
  ultimately show ?case using Cons.IH by simp
qed

lemma inv_ts_initial: "inv_ts initial_ts"
  by (simp add: inv_ts_def initial_ts_def symmetric_def all_truthy_def)


lemma inv_ts_reachable: "admissible_ts initial_ts es \<Longrightarrow> inv_ts (exec_ts initial_ts es)"
  using inv_ts_initial by (rule inv_exec_ts)

lemma ts_symmetry_along_runs:
  assumes "admissible_ts initial_ts es" and "peers_ts (exec_ts initial_ts es) a = Some b"
  shows "peers_ts (exec_ts initial_ts es) b = Some a"
  using inv_ts_reachable [OF assms(1)] assms(2) unfolding inv_ts_def symmetric_def by blast

lemma ts_queue_and_pairs_apart:
  assumes "admissible_ts initial_ts es"
  shows "\<not> (sid \<in> set (waitingQueue_ts (exec_ts initial_ts es)) \<and> sid \<in> dom (peers_ts (exec_ts initial_ts es)))"
  using inv_ts_reachable [OF assms(1)] unfolding inv_ts_def by auto

lemma ts_connect_takes_head:
  assumes "waitingQueue_ts st = partner # rest"
  shows "connection_ts sid st =
           (st\<lparr>waitingQueue_ts := rest,
               peers_ts := ((peers_ts st)(sid \<mapsto> partner))(partner \<mapsto> sid)\<rparr>,
            [(partner, MatchFound sid True), (sid, MatchFound partner False)])"
  using assms by (simp add: connection_ts_def)

lemma ts_connect_enqueues_silently:
  assumes "waitingQueue_ts st = []"
  shows "connection_ts sid st = (st\<lparr>waitingQueue_ts := [sid]\<rparr>, [])"
  using assms by (simp add: connection_ts_def)

lemma ts_signal_without_peer_is_silent:
  assumes "peers_ts st sid = None"
  shows "signal_ts sid payload st = Inr (st, [])"
  using assms by (simp add: signal_ts_def)

lemma ts_signal_relays:
  assumes "peers_ts st sid = Some p" and "truthy p"
  shows "v \<noteq> JNull \<Longrightarrow> signal_ts sid (JSON v) st = Inr (st, [(p, SignalMsg (JSON v))])"
    and "signal_ts sid JSUndefined st = Inl TypeError"
    and "signal_ts sid (JSON JNull) st = Inl TypeError"
  using assms by (simp_all add: signal_ts_def object_keys_def split: json.splits)

lemma ts_handleDisconnect_twice:
  fixes st :: server_ts and sid :: string
  defines "once \<equiv> fst (handleDisconnect sid st :: server_ts \<times> 'p emission list)"
  assumes "inv_ts st"
  shows "(handleDisconnect sid once :: server_ts \<times> 'p emission list) = (once, [])"
proof -
  from inv_handleDisconnect [OF assms(2), of sid, where 'p = 'p]
  have p: "peers_ts once sid = None" and q: "sid \<notin> set (waitingQueue_ts once)"
    unfolding once_def by simp_all
  from q have "remove1 sid (waitingQueue_ts once) = waitingQueue_ts once"
    by (simp add: remove1_idem)
  with p show ?thesis by (simp add: handleDisconnect_unpaired)
qed

lemma ts_find_next_never_pairs_with_itself:
  fixes st :: server_ts and sid :: string
  defines "st' \<equiv> fst (find_next_ts sid st :: server_ts \<times> 'p emission list)"
  assumes "inv_ts st"
  shows "peers_ts st' sid \<noteq> Some sid"
proof -
  let ?st1 = "fst (handleDisconnect sid st :: server_ts \<times> 'p emission list)"
  from inv_handleDisconnect [OF assms(2), of sid, where 'p = 'p]
  have i: "inv_ts ?st1" and p: "peers_ts ?st1 sid = None" and q: "sid \<notin> set (waitingQueue_ts ?st1)"
    by simp_all
  have e: "st' = fst (connection_ts sid ?st1 :: server_ts \<times> 'p emission list)"
    unfolding st'_def by (rule find_next_ts_state)
  show ?thesis
  proof (cases "waitingQueue_ts ?st1")
    case Nil
    with p show ?thesis by (simp add: e connection_ts_def)
  next
    case (Cons h rest)
    with q have "h \<noteq> sid" by auto
    with Cons show ?thesis by (simp add: e connection_ts_def)
  qed
qed

end
